theory Spec2Isabelle
  imports Main "HOL-Library.Sublist"
begin

section \<open>Data model\<close>

text \<open>
  The library searches arrays of arbitrary JavaScript values. Objects and arrays are
  reference values: they can be shared and can contain themselves (\<open>x.self = x\<close>), so
  they live in a store and a value only holds their address. The store is a list of
  cells, an address is an index into it. An object cell lists its own enumerable
  properties in the order \<open>Object.values\<close> enumerates them; an array cell lists its
  elements (arrays are dense). Numbers are the integer-valued ones that print in plain
  decimal (below \<open>2 ^ 53\<close> in size), strings are ASCII texts. Inherited members of the
  built-in prototypes are not part of the data: looking up a name that is not an own
  property gives \<open>undefined\<close>, so the paths covered are those that name own properties.
\<close>

datatype jsval =
    Undefined
  | Null
  | Bool bool
  | Num int
  | Str string
  | Ref nat

datatype cell =
    Object "(string \<times> jsval) list"
  | Array "jsval list"

type_synonym heap = "cell list"

text \<open>An address outside the store reads as an object without properties.\<close>

definition cell_at :: "heap \<Rightarrow> nat \<Rightarrow> cell" where
  "cell_at h a = (if a < length h then h ! a else Object [])"

text \<open>Exceptions of the JavaScript runtime that the code can meet.\<close>

datatype error = TypeError | SyntaxError

text \<open>
  A value that a function holds in a local variable is either a value of the store or an
  array it has just built (\<open>flatMap\<close>, \<open>flat\<close>), which has no address yet.
\<close>

datatype cur = Val jsval | Tmp "jsval list"

text \<open>\<open>Array.isArray(v)\<close>, giving the elements.\<close>

definition array_elems :: "heap \<Rightarrow> jsval \<Rightarrow> jsval list option" where
  "array_elems h v =
     (case v of
        Ref a \<Rightarrow> (case cell_at h a of Array xs \<Rightarrow> Some xs | Object kvs \<Rightarrow> None)
      | _ \<Rightarrow> None)"

definition cur_elems :: "heap \<Rightarrow> cur \<Rightarrow> jsval list option" where
  "cur_elems h c = (case c of Tmp xs \<Rightarrow> Some xs | Val v \<Rightarrow> array_elems h v)"

subsection \<open>Strings\<close>

definition digit_char :: "nat \<Rightarrow> char" where
  "digit_char d = ''0123456789'' ! d"

fun show_nat :: "nat \<Rightarrow> string" where
  "show_nat n = (if n < 10 then [digit_char n] else show_nat (n div 10) @ [digit_char (n mod 10)])"

declare show_nat.simps [simp del]

definition show_int :: "int \<Rightarrow> string" where
  "show_int i = (if i < 0 then CHR ''-'' # show_nat (nat (- i)) else show_nat (nat i))"

text \<open>\<open>s.endsWith(t)\<close> and \<open>s.slice(0, -2)\<close>.\<close>

definition endsWith :: "string \<Rightarrow> string \<Rightarrow> bool" where
  "endsWith s t = (length t \<le> length s \<and> drop (length s - length t) s = t)"

definition slice_0_m2 :: "string \<Rightarrow> string" where
  "slice_0_m2 s = take (length s - 2) s"

text \<open>\<open>path.split('.')\<close>: always at least one segment.\<close>

fun split_dot :: "string \<Rightarrow> string list" where
  "split_dot [] = [[]]"
| "split_dot (c # cs) =
     (if c = CHR ''.'' then [] # split_dot cs
      else (case split_dot cs of [] \<Rightarrow> [[c]] | s # ss \<Rightarrow> (c # s) # ss))"

text \<open>\<open>s.toLowerCase()\<close> on ASCII.\<close>

definition lower_char :: "char \<Rightarrow> char" where
  "lower_char c =
     (case map_of (zip ''ABCDEFGHIJKLMNOPQRSTUVWXYZ'' ''abcdefghijklmnopqrstuvwxyz'') c of
        Some d \<Rightarrow> d
      | None \<Rightarrow> c)"

definition toLowerCase :: "string \<Rightarrow> string" where
  "toLowerCase s = map lower_char s"

text \<open>\<open>s.includes(t)\<close>.\<close>

fun startsWith :: "string \<Rightarrow> string \<Rightarrow> bool" where
  "startsWith s [] = True"
| "startsWith [] (c # t) = False"
| "startsWith (d # s) (c # t) = (d = c \<and> startsWith s t)"

fun str_includes :: "string \<Rightarrow> string \<Rightarrow> bool" where
  "str_includes [] t = (t = [])"
| "str_includes (d # s) t = (startsWith (d # s) t \<or> str_includes s t)"

text \<open>\<open>xs.join(',')\<close> on the texts of the elements.\<close>

fun join_comma :: "string list \<Rightarrow> string" where
  "join_comma [] = []"
| "join_comma [s] = s"
| "join_comma (s # t # ss) = s @ CHR '','' # join_comma (t # ss)"

subsection \<open>Sequencing computations that can throw\<close>

fun mapM :: "('a \<Rightarrow> error + 'b) \<Rightarrow> 'a list \<Rightarrow> error + 'b list" where
  "mapM f [] = Inr []"
| "mapM f (x # xs) =
     (case f x of
        Inl e \<Rightarrow> Inl e
      | Inr y \<Rightarrow> (case mapM f xs of Inl e \<Rightarrow> Inl e | Inr ys \<Rightarrow> Inr (y # ys)))"

lemma mapM_cong [fundef_cong]:
  "xs = ys \<Longrightarrow> (\<And>x. x \<in> set ys \<Longrightarrow> f x = g x) \<Longrightarrow> mapM f xs = mapM g ys"
  by (induction ys arbitrary: xs) (auto split: sum.splits)

subsection \<open>\<open>String(value)\<close>\<close>

text \<open>
  \<open>String(v)\<close> of a primitive is its text. An ordinary object converts through
  \<open>Object.prototype.toString\<close> to \<open>[object Object]\<close>, unless an own property named
  \<open>toString\<close> (a data value, so not callable) hides it: then no method yields a
  primitive and the conversion throws a TypeError. An array converts through \<open>join\<close>:
  \<open>undefined\<close> and \<open>null\<close> elements give the empty text, and an array met again while it
  is being joined gives the empty text (the engines' cycle check); \<open>vis\<close> holds the
  arrays being joined.
\<close>

function toString :: "heap \<Rightarrow> nat list \<Rightarrow> jsval \<Rightarrow> error + string" where
  "toString h vis Undefined = Inr ''undefined''"
| "toString h vis Null = Inr ''null''"
| "toString h vis (Bool b) = Inr (if b then ''true'' else ''false'')"
| "toString h vis (Num i) = Inr (show_int i)"
| "toString h vis (Str s) = Inr s"
| "toString h vis (Ref a) =
     (if a < length h then
        (case h ! a of
           Object kvs \<Rightarrow>
             if ''toString'' \<in> set (map fst kvs) then Inl TypeError
             else Inr ''[object Object]''
         | Array xs \<Rightarrow>
             if a \<in> set vis then Inr []
             else
               (case mapM (\<lambda>x. if x = Undefined \<or> x = Null then Inr []
                                else toString h (a # vis) x) xs of
                  Inl e \<Rightarrow> Inl e
                | Inr ss \<Rightarrow> Inr (join_comma ss)))
      else Inr ''[object Object]'')"
  by pat_completeness auto
termination
proof (relation "measure (\<lambda>(h, vis, v). card ({..<length h} - set vis))")
  show "wf (measure (\<lambda>(h, vis, v). card ({..<length h} - set vis)))"
    by simp
next
  fix h :: heap and vis :: "nat list" and a :: nat and x2 :: "jsval list" and x :: jsval
  assume "a < length h" and "a \<notin> set vis"
  then have "{..<length h} - set (a # vis) \<subset> {..<length h} - set vis"
    by auto
  then have "card ({..<length h} - set (a # vis)) < card ({..<length h} - set vis)"
    by (intro psubset_card_mono) auto
  then show "((h, a # vis, x), (h, vis, Ref a)) \<in> measure (\<lambda>(h, vis, v). card ({..<length h} - set vis))"
    by simp
qed

definition String :: "heap \<Rightarrow> jsval \<Rightarrow> error + string" where
  "String h v = toString h [] v"

section \<open>Property access and array helpers\<close>

text \<open>
  \<open>v[key]\<close>. Reading a property of \<open>undefined\<close> or \<open>null\<close> throws a TypeError; numbers
  and booleans have no own properties; a string and an array have \<open>length\<close> and their
  indices, written in decimal.
\<close>

fun index_lookup :: "jsval list \<Rightarrow> nat \<Rightarrow> string \<Rightarrow> jsval" where
  "index_lookup [] i key = Undefined"
| "index_lookup (x # xs) i key = (if key = show_nat i then x else index_lookup xs (Suc i) key)"

definition array_get :: "jsval list \<Rightarrow> string \<Rightarrow> jsval" where
  "array_get xs key =
     (if key = ''length'' then Num (int (length xs)) else index_lookup xs 0 key)"

definition getProp :: "heap \<Rightarrow> jsval \<Rightarrow> string \<Rightarrow> error + jsval" where
  "getProp h v key =
     (case v of
        Undefined \<Rightarrow> Inl TypeError
      | Null \<Rightarrow> Inl TypeError
      | Bool b \<Rightarrow> Inr Undefined
      | Num i \<Rightarrow> Inr Undefined
      | Str s \<Rightarrow> Inr (array_get (map (\<lambda>c. Str [c]) s) key)
      | Ref a \<Rightarrow>
          (case cell_at h a of
             Object kvs \<Rightarrow> Inr (case map_of kvs key of Some w \<Rightarrow> w | None \<Rightarrow> Undefined)
           | Array xs \<Rightarrow> Inr (array_get xs key)))"

definition cur_get :: "heap \<Rightarrow> cur \<Rightarrow> string \<Rightarrow> error + jsval" where
  "cur_get h c key = (case c of Val v \<Rightarrow> getProp h v key | Tmp xs \<Rightarrow> Inr (array_get xs key))"

text \<open>
  \<open>xs.flat(d)\<close>: elements that are arrays are replaced by their elements, \<open>d\<close> levels deep;
  a negative depth counts as 0.
\<close>

fun flat :: "heap \<Rightarrow> nat \<Rightarrow> jsval list \<Rightarrow> jsval list" where
  "flat h 0 xs = xs"
| "flat h (Suc d) xs =
     concat (map (\<lambda>x. case array_elems h x of Some ys \<Rightarrow> flat h d ys | None \<Rightarrow> [x]) xs)"

text \<open>\<open>xs.flatMap(item => item[key])\<close>: the first element that throws ends it.\<close>

definition flatMap_key :: "heap \<Rightarrow> jsval list \<Rightarrow> string \<Rightarrow> error + jsval list" where
  "flatMap_key h xs key =
     (case mapM (\<lambda>item. getProp h item key) xs of
        Inl e \<Rightarrow> Inl e
      | Inr rs \<Rightarrow> Inr (concat (map (\<lambda>r. case array_elems h r of Some ys \<Rightarrow> ys | None \<Rightarrow> [r]) rs)))"

text \<open>\<open>Object.values\<close> of the object or array at an address.\<close>

definition Object_values :: "heap \<Rightarrow> nat \<Rightarrow> jsval list" where
  "Object_values h a = (case cell_at h a of Object kvs \<Rightarrow> map snd kvs | Array xs \<Rightarrow> xs)"

section \<open>Path resolution\<close>

text \<open>
  \<open>getValueByPath\<close>: the loop over the segments, with the exceptions it can throw; the
  function itself catches them and returns \<open>undefined\<close>.
\<close>

fun getValueByPath_loop :: "heap \<Rightarrow> jsval \<Rightarrow> string list \<Rightarrow> error + cur" where
  "getValueByPath_loop h current [] = Inr (Val current)"
| "getValueByPath_loop h current (segment # segments) =
     (case (if endsWith segment ''[]'' then array_elems h current else None) of
        Some xs \<Rightarrow>
          (case flatMap_key h xs (slice_0_m2 segment) of
             Inl e \<Rightarrow> Inl e
           | Inr ys \<Rightarrow> Inr (Tmp ys))
      | None \<Rightarrow>
          (case getProp h current segment of
             Inl e \<Rightarrow> Inl e
           | Inr v \<Rightarrow>
               if v = Undefined then Inr (Val Undefined)
               else getValueByPath_loop h v segments))"

definition getValueByPath :: "heap \<Rightarrow> jsval \<Rightarrow> string \<Rightarrow> cur" where
  "getValueByPath h obj path =
     (case getValueByPath_loop h obj (split_dot path) of
        Inl e \<Rightarrow> Val Undefined
      | Inr c \<Rightarrow> c)"

text \<open>
  \<open>getNestedValue\<close>: the loop gives \<open>None\<close> where the code returns \<open>[]\<close> from inside it,
  and the last value otherwise.
\<close>

fun getNestedValue_loop :: "heap \<Rightarrow> cur \<Rightarrow> string list \<Rightarrow> error + cur option" where
  "getNestedValue_loop h current [] = Inr (Some current)"
| "getNestedValue_loop h current (segment # segments) =
     (if endsWith segment ''[]'' then
        (case cur_elems h current of
           Some xs \<Rightarrow>
             (case flatMap_key h xs (slice_0_m2 segment) of
                Inl e \<Rightarrow> Inl e
              | Inr ys \<Rightarrow> getNestedValue_loop h (Tmp ys) segments)
         | None \<Rightarrow>
             (case cur_get h current (slice_0_m2 segment) of
                Inl e \<Rightarrow> Inl e
              | Inr v \<Rightarrow>
                  (case array_elems h v of
                     Some ys \<Rightarrow> getNestedValue_loop h (Val v) segments
                   | None \<Rightarrow> Inr None)))
      else
        (case cur_get h current segment of
           Inl e \<Rightarrow> Inl e
         | Inr v \<Rightarrow>
             if v = Undefined then Inr None
             else
               (case array_elems h v of
                  Some ys \<Rightarrow> getNestedValue_loop h (Tmp (flat h 1 ys)) segments
                | None \<Rightarrow> getNestedValue_loop h (Val v) segments)))"

definition getNestedValue :: "heap \<Rightarrow> jsval \<Rightarrow> string \<Rightarrow> int \<Rightarrow> jsval list" where
  "getNestedValue h obj path depth =
     (case getNestedValue_loop h (Val obj) (split_dot path) of
        Inl e \<Rightarrow> []
      | Inr None \<Rightarrow> []
      | Inr (Some current) \<Rightarrow>
          filter (\<lambda>v. v \<noteq> Undefined)
            (case current of
               Tmp xs \<Rightarrow> flat h (nat depth) xs
             | Val v \<Rightarrow>
                 (case array_elems h v of
                    Some xs \<Rightarrow> flat h (nat depth) xs
                  | None \<Rightarrow> [v])))"

section \<open>Flattening\<close>

text \<open>
  \<open>isFlattenable\<close> is \<open>typeof value === 'object' && value !== null\<close>. The depth budget is
  an integer; \<open>flatten\<close> recurses on it, into the values of the object or array.
\<close>

definition isFlattenable :: "jsval \<Rightarrow> bool" where
  "isFlattenable v = (case v of Ref a \<Rightarrow> True | _ \<Rightarrow> False)"

function flatten :: "heap \<Rightarrow> jsval \<Rightarrow> int \<Rightarrow> jsval list" where
  "flatten h v depth =
     (if depth \<le> 0 \<or> \<not> isFlattenable v then [v]
      else
        (case v of
           Ref a \<Rightarrow> concat (map (\<lambda>w. flatten h w (depth - 1)) (Object_values h a))
         | _ \<Rightarrow> [v]))"
  by pat_completeness auto
termination
  by (relation "measure (\<lambda>(h, v, depth). nat depth)") auto

declare flatten.simps [simp del]

text \<open>\<open>flattenObject\<close> is called on objects and arrays only (\<open>matchItem\<close> checks it).\<close>

definition flattenObject :: "heap \<Rightarrow> jsval \<Rightarrow> int \<Rightarrow> jsval list" where
  "flattenObject h obj depth =
     (case obj of
        Ref a \<Rightarrow> concat (map (\<lambda>v. flatten h v depth) (Object_values h a))
      | _ \<Rightarrow> [])"



section \<open>Matchers\<close>

text \<open>
  A matcher is a function of a value and the search term that returns a boolean or
  throws. It has no effect of its own: its result depends on its arguments and the
  store only.
\<close>

type_synonym matcher = "jsval \<Rightarrow> jsval \<Rightarrow> error + bool"

definition defaultMatcher :: "heap \<Rightarrow> matcher" where
  "defaultMatcher h v t =
     (case String h v of
        Inl e \<Rightarrow> Inl e
      | Inr strValue \<Rightarrow>
          (case String h t of
             Inl e \<Rightarrow> Inl e
           | Inr strTerm \<Rightarrow> Inr (str_includes (toLowerCase strValue) (toLowerCase strTerm))))"

definition exactMatcher :: matcher where
  "exactMatcher v t = Inr (v = t)"

text \<open>
  The regular-expression engine belongs to the runtime, so it is a parameter:
  \<open>RegExp pattern flags\<close> is \<open>None\<close> when \<open>new RegExp(pattern, flags)\<close> throws a
  SyntaxError, and otherwise the \<open>test\<close> function of the new expression. The matcher's
  body is the \<open>try\<close> block, the matcher itself adds the \<open>catch\<close>. The flags default to
  \<open>i\<close>.
\<close>

type_synonym regexp_engine = "string \<Rightarrow> string \<Rightarrow> (string \<Rightarrow> bool) option"

definition createRegExpMatcher_try ::
  "regexp_engine \<Rightarrow> heap \<Rightarrow> string \<Rightarrow> jsval \<Rightarrow> string \<Rightarrow> error + bool" where
  "createRegExpMatcher_try RegExp h flags v pattern =
     (case RegExp pattern flags of
        None \<Rightarrow> Inl SyntaxError
      | Some test \<Rightarrow>
          (case String h v of
             Inl e \<Rightarrow> Inl e
           | Inr s \<Rightarrow> Inr (test s)))"

definition createRegExpMatcher ::
  "regexp_engine \<Rightarrow> heap \<Rightarrow> string option \<Rightarrow> jsval \<Rightarrow> string \<Rightarrow> error + bool" where
  "createRegExpMatcher RegExp h flags v pattern =
     (case createRegExpMatcher_try RegExp h (case flags of None \<Rightarrow> ''i'' | Some f \<Rightarrow> f) v pattern of
        Inl e \<Rightarrow> Inr False
      | Inr b \<Rightarrow> Inr b)"

section \<open>Matching one item\<close>

text \<open>\<open>xs.some(p)\<close> for a callback that can throw: it stops at the first \<open>true\<close> or exception.\<close>

fun some_m :: "('a \<Rightarrow> error + bool) \<Rightarrow> 'a list \<Rightarrow> error + bool" where
  "some_m p [] = Inr False"
| "some_m p (x # xs) =
     (case p x of
        Inl e \<Rightarrow> Inl e
      | Inr b \<Rightarrow> if b then Inr True else some_m p xs)"

text \<open>
  The path cache is a module-level \<open>Map\<close> from path strings to string lists, empty when
  the module is loaded. Every function that can touch it takes it and returns it.
\<close>

type_synonym cache = "string \<rightharpoonup> string list"

definition pathCache_init :: cache where
  "pathCache_init = Map.empty"

text \<open>The one-level \<open>flat()\<close> of the list of results of \<open>getValueByPath\<close>.\<close>

definition flat_results :: "heap \<Rightarrow> cur list \<Rightarrow> jsval list" where
  "flat_results h rs =
     concat (map (\<lambda>r. case r of
                         Tmp xs \<Rightarrow> xs
                       | Val v \<Rightarrow> (case array_elems h v of Some xs \<Rightarrow> xs | None \<Rightarrow> [v])) rs)"

text \<open>The values of one path, as the callback of \<open>keys.some\<close> computes them.\<close>

definition path_values ::
  "heap \<Rightarrow> jsval \<Rightarrow> string \<Rightarrow> int \<Rightarrow> bool \<Rightarrow> cache \<Rightarrow> cache \<times> jsval list" where
  "path_values h item path maxDepth enablePathCache c =
     (if enablePathCache then
        (case c path of
           Some cached \<Rightarrow> (c, flat_results h (map (\<lambda>p. getValueByPath h item p) cached))
         | None \<Rightarrow> (c(path \<mapsto> [path]), getNestedValue h item path maxDepth))
      else (c, getNestedValue h item path maxDepth))"

fun match_keys ::
  "heap \<Rightarrow> jsval \<Rightarrow> jsval \<Rightarrow> matcher \<Rightarrow> int \<Rightarrow> bool \<Rightarrow> cache \<Rightarrow> string list \<Rightarrow>
   cache \<times> (error + bool)" where
  "match_keys h item t customMatch maxDepth enablePathCache c [] = (c, Inr False)"
| "match_keys h item t customMatch maxDepth enablePathCache c (path # paths) =
     (case path_values h item path maxDepth enablePathCache c of
        (c', vs) \<Rightarrow>
          (case some_m (\<lambda>v. customMatch v t) vs of
             Inl e \<Rightarrow> (c', Inl e)
           | Inr b \<Rightarrow>
               if b then (c', Inr True)
               else match_keys h item t customMatch maxDepth enablePathCache c' paths))"

definition matchItem ::
  "heap \<Rightarrow> jsval \<Rightarrow> jsval \<Rightarrow> string list option \<Rightarrow> matcher \<Rightarrow> int \<Rightarrow> bool \<Rightarrow> cache \<Rightarrow>
   cache \<times> (error + bool)" where
  "matchItem h item t keys customMatch maxDepth enablePathCache c =
     (if \<not> isFlattenable item then (c, customMatch item t)
      else
        (case keys of
           None \<Rightarrow> (c, some_m (\<lambda>v. customMatch v t) (flattenObject h item maxDepth))
         | Some ks \<Rightarrow>
             if length ks = 0
             then (c, some_m (\<lambda>v. customMatch v t) (flattenObject h item maxDepth))
             else match_keys h item t customMatch maxDepth enablePathCache c ks))"

section \<open>The search\<close>

record options =
  keys :: "string list option"
  customMatch :: "matcher option"
  maxDepth :: "int option"
  enablePathCache :: "bool option"
  parallel :: "bool option"

definition DEFAULT_MAX_DEPTH :: int where
  "DEFAULT_MAX_DEPTH = 10"

text \<open>\<open>const options = {}\<close>: every field absent.\<close>

definition no_options :: options where
  "no_options =
     \<lparr>keys = None, customMatch = None, maxDepth = None, enablePathCache = None,
      parallel = None\<rparr>"

text \<open>
  \<open>data.filter(item => matchItem(...))\<close>: the items are matched in order, each with the
  cache the earlier ones left, and the first exception ends the filter.
\<close>

fun filter_items ::
  "(jsval \<Rightarrow> cache \<Rightarrow> cache \<times> (error + bool)) \<Rightarrow> jsval list \<Rightarrow> cache \<Rightarrow>
   cache \<times> (error + jsval list)" where
  "filter_items f [] c = (c, Inr [])"
| "filter_items f (x # xs) c =
     (case f x c of
        (c', Inl e) \<Rightarrow> (c', Inl e)
      | (c', Inr b) \<Rightarrow>
          (case filter_items f xs c' of
             (c'', Inl e) \<Rightarrow> (c'', Inl e)
           | (c'', Inr ys) \<Rightarrow> (c'', Inr (if b then x # ys else ys))))"

text \<open>
  \<open>data.slice(s, e)\<close> for \<open>0 \<le> s \<le> e\<close>, \<open>Math.ceil(n / k)\<close> on natural numbers, and the
  chunks of the parallel branch. The branch is taken with more than 1000 elements, so
  \<open>chunkSize\<close> is at least 251 there.
\<close>

definition slice :: "'a list \<Rightarrow> nat \<Rightarrow> nat \<Rightarrow> 'a list" where
  "slice xs s e = take (e - s) (drop s xs)"

definition ceil_div :: "nat \<Rightarrow> nat \<Rightarrow> nat" where
  "ceil_div n k = (n + k - 1) div k"

definition chunks_of :: "'a list \<Rightarrow> 'a list list" where
  "chunks_of data =
     (let chunkSize = ceil_div (length data) 4
      in map (\<lambda>i. slice data (i * chunkSize) ((i + 1) * chunkSize))
           [0..<ceil_div (length data) chunkSize])"

text \<open>
  Each chunk is filtered inside the executor of a new promise, which runs at once: an
  exception rejects that promise and the next chunk is still filtered.
  \<open>Promise.all\<close> fulfils with all the results, or rejects with the first rejection.
\<close>

fun run_chunks ::
  "(jsval \<Rightarrow> cache \<Rightarrow> cache \<times> (error + bool)) \<Rightarrow> jsval list list \<Rightarrow> cache \<Rightarrow>
   cache \<times> (error + jsval list) list" where
  "run_chunks f [] c = (c, [])"
| "run_chunks f (chunk # chunks) c =
     (case filter_items f chunk c of
        (c', r) \<Rightarrow> (case run_chunks f chunks c' of (c'', rs) \<Rightarrow> (c'', r # rs)))"

definition Promise_all :: "(error + 'a) list \<Rightarrow> error + 'a list" where
  "Promise_all ps = mapM (\<lambda>p. p) ps"

text \<open>
  What a call gives its caller: an array, an exception, or a promise that will be
  fulfilled with an array or rejected. \<open>await\<close> turns all three into the array or the
  exception.
\<close>

datatype search_result =
    Returned "jsval list"
  | Thrown error
  | Promise "error + jsval list"

definition await :: "search_result \<Rightarrow> error + jsval list" where
  "await r = (case r of Returned xs \<Rightarrow> Inr xs | Thrown e \<Rightarrow> Inl e | Promise p \<Rightarrow> p)"

definition searchData ::
  "heap \<Rightarrow> jsval list \<Rightarrow> jsval \<Rightarrow> options \<Rightarrow> cache \<Rightarrow> cache \<times> search_result" where
  "searchData h data t opts c =
     (let ks = keys opts;
          cm = (case customMatch opts of None \<Rightarrow> defaultMatcher h | Some m \<Rightarrow> m);
          md = (case maxDepth opts of None \<Rightarrow> DEFAULT_MAX_DEPTH | Some d \<Rightarrow> d);
          ec = (case enablePathCache opts of None \<Rightarrow> True | Some b \<Rightarrow> b);
          par = (case parallel opts of None \<Rightarrow> False | Some b \<Rightarrow> b);
          f = (\<lambda>item. matchItem h item t ks cm md ec)
      in if par \<and> length data > 1000 then
           (case run_chunks f (chunks_of data) c of
              (c', results) \<Rightarrow>
                (c', Promise (case Promise_all results of
                                Inl e \<Rightarrow> Inl e
                              | Inr rs \<Rightarrow> Inr (concat rs))))
         else
           (case filter_items f data c of
              (c', Inl e) \<Rightarrow> (c', Thrown e)
            | (c', Inr xs) \<Rightarrow> (c', Returned xs)))"

section \<open>The unused path parser\<close>

text \<open>
  \<open>parsePath\<close> splits a path at the dots, trims the segments (of ASCII white space) and
  drops the empty ones. No other function of the module calls it.
\<close>

definition is_space :: "char \<Rightarrow> bool" where
  "is_space ch = (ch \<in> set [CHR '' '', CHR 0x09, CHR 0x0A, CHR 0x0B, CHR 0x0C, CHR 0x0D])"

definition trim :: "string \<Rightarrow> string" where
  "trim s = rev (dropWhile is_space (rev (dropWhile is_space s)))"

definition parsePath :: "string \<Rightarrow> string list" where
  "parsePath path = filter (\<lambda>segment. segment \<noteq> []) (map trim (split_dot path))"

section \<open>The contents of the path cache\<close>

text \<open>
  The statement about the cache: every entry maps a path to the list holding that path
  alone. \<open>cache_step c c'\<close> says that \<open>c'\<close> keeps every entry of \<open>c\<close> as it is and keeps
  the statement true. \<open>run_calls\<close> is the life of the module: a sequence of calls of
  \<open>searchData\<close>, each on the store, collection, term and options of its caller, each
  starting on the cache the one before left.
\<close>

definition cache_ok :: "cache \<Rightarrow> bool" where
  "cache_ok c = (\<forall>p xs. c p = Some xs \<longrightarrow> xs = [p])"

definition cache_step :: "cache \<Rightarrow> cache \<Rightarrow> bool" where
  "cache_step c c' = (c \<subseteq>\<^sub>m c' \<and> (cache_ok c \<longrightarrow> cache_ok c'))"

fun run_calls :: "(heap \<times> jsval list \<times> jsval \<times> options) list \<Rightarrow> cache \<Rightarrow> cache" where
  "run_calls [] c = c"
| "run_calls ((h, data, t, opts) # calls) c = run_calls calls (fst (searchData h data t opts c))"

section \<open>Example inputs\<close>

text \<open>The object \<open>{orders: [{item: "a"}, {item: "b"}]}\<close>, at address 0.\<close>

definition orders_heap :: heap where
  "orders_heap =
     [Object [(''orders'', Ref 1)],
      Array [Ref 2, Ref 3],
      Object [(''item'', Str ''a'')],
      Object [(''item'', Str ''b'')]]"

text \<open>Two items \<open>{tags: ["x"]}\<close>, at addresses 0 and 2.\<close>

definition tags_heap :: heap where
  "tags_heap =
     [Object [(''tags'', Ref 1)],
      Array [Str ''x''],
      Object [(''tags'', Ref 3)],
      Array [Str ''x'']]"

text \<open>Two items \<open>{a: null}\<close>, at addresses 0 and 1.\<close>

definition null_heap :: heap where
  "null_heap = [Object [(''a'', Null)], Object [(''a'', Null)]]"

text \<open>The object \<open>{a: {b: {c: "needle"}}}\<close>, at address 0.\<close>

definition nested_heap :: heap where
  "nested_heap =
     [Object [(''a'', Ref 1)],
      Object [(''b'', Ref 2)],
      Object [(''c'', Str ''needle'')]]"


section \<open>Properties\<close>

subsection \<open>Filtering, chunks and the awaited result\<close>

lemma filter_items_append:
  "filter_items f (xs @ ys) c =
     (case filter_items f xs c of
        (c', Inl e) \<Rightarrow> (c', Inl e)
      | (c', Inr r) \<Rightarrow>
          (case filter_items f ys c' of
             (c'', Inl e) \<Rightarrow> (c'', Inl e)
           | (c'', Inr r') \<Rightarrow> (c'', Inr (r @ r'))))"
  by (induction xs arbitrary: c) (auto split: prod.splits sum.splits)

lemma Promise_all_Cons:
  "Promise_all (p # ps) =
     (case p of
        Inl e \<Rightarrow> Inl e
      | Inr y \<Rightarrow> (case Promise_all ps of Inl e \<Rightarrow> Inl e | Inr ys \<Rightarrow> Inr (y # ys)))"
  unfolding Promise_all_def by simp

lemma run_chunks_await:
  "(case Promise_all (snd (run_chunks f chs c)) of
      Inl e \<Rightarrow> Inl e
    | Inr rs \<Rightarrow> Inr (concat rs)) = snd (filter_items f (concat chs) c)"
proof (induction chs arbitrary: c)
  case Nil
  show ?case by (simp add: Promise_all_def)
next
  case (Cons ch chs)
  obtain c' r where r: "filter_items f ch c = (c', r)" by (cases "filter_items f ch c")
  obtain c'' rs where rs: "run_chunks f chs c' = (c'', rs)" by (cases "run_chunks f chs c'")
  from Cons.IH [of c'] rs
  have ih: "(case Promise_all rs of Inl e \<Rightarrow> Inl e | Inr rs \<Rightarrow> Inr (concat rs))
            = snd (filter_items f (concat chs) c')" by simp
  show ?case
  proof (cases r)
    case (Inl e)
    with r rs show ?thesis by (simp add: filter_items_append Promise_all_Cons)
  next
    case (Inr ys)
    with r rs ih [symmetric] show ?thesis
      by (auto simp add: filter_items_append Promise_all_Cons split: prod.splits sum.splits)
  qed
qed

lemma concat_slices:
  "concat (map (\<lambda>i. slice xs (i * k) ((i + 1) * k)) [0..<m]) = take (m * k) xs"
proof (induction m)
  case 0
  show ?case by simp
next
  case (Suc m)
  have "take (m * k) xs @ take k (drop (m * k) xs) = take (m * k + k) xs"
    by (simp add: take_add)
  with Suc show ?case by (simp add: slice_def add.commute)
qed

lemma ceil_div_covers: "0 < k \<Longrightarrow> n \<le> ceil_div n k * k"
proof -
  assume k: "0 < k"
  have "n + k - 1 = (n + k - 1) div k * k + (n + k - 1) mod k" by simp
  moreover have "(n + k - 1) mod k < k" using k by simp
  ultimately have "n + k - 1 < (n + k - 1) div k * k + k" by linarith
  then show ?thesis using k by (simp add: ceil_div_def)
qed

lemma concat_chunks_of: "concat (chunks_of data) = data"
proof (cases "data = []")
  case True
  then show ?thesis by (simp add: chunks_of_def ceil_div_def)
next
  case False
  then have pos: "0 < ceil_div (length data) 4" by (cases data) (simp_all add: ceil_div_def)
  have "concat (chunks_of data) =
        take (ceil_div (length data) (ceil_div (length data) 4) * ceil_div (length data) 4) data"
    unfolding chunks_of_def Let_def by (rule concat_slices)
  with ceil_div_covers [OF pos, of "length data"] show ?thesis by simp
qed

lemma length_chunks_of: "length (chunks_of data) \<le> 4"
proof -
  let ?n = "length data"
  let ?k = "ceil_div ?n 4"
  have "?n \<le> ?k * 4" by (rule ceil_div_covers) simp
  have "ceil_div ?n ?k \<le> 4"
  proof (cases "?k = 0")
    case True
    have "ceil_div ?n 0 = 0" by (simp add: ceil_div_def)
    with True show ?thesis by simp
  next
    case False
    with \<open>?n \<le> ?k * 4\<close> have "?n + ?k - 1 < 5 * ?k" by linarith
    then have "(?n + ?k - 1) div ?k < 5" by (rule less_mult_imp_div_less)
    then show ?thesis by (simp add: ceil_div_def [of ?n ?k])
  qed
  then show ?thesis by (simp add: chunks_of_def Let_def)
qed


lemma await_searchData:
  "await (snd (searchData h data t opts c)) =
   snd (filter_items
          (\<lambda>item. matchItem h item t (keys opts)
             (case customMatch opts of None \<Rightarrow> defaultMatcher h | Some m \<Rightarrow> m)
             (case maxDepth opts of None \<Rightarrow> DEFAULT_MAX_DEPTH | Some d \<Rightarrow> d)
             (case enablePathCache opts of None \<Rightarrow> True | Some b \<Rightarrow> b))
          data c)"
proof -
  let ?f = "\<lambda>item. matchItem h item t (keys opts)
             (case customMatch opts of None \<Rightarrow> defaultMatcher h | Some m \<Rightarrow> m)
             (case maxDepth opts of None \<Rightarrow> DEFAULT_MAX_DEPTH | Some d \<Rightarrow> d)
             (case enablePathCache opts of None \<Rightarrow> True | Some b \<Rightarrow> b)"
  show ?thesis
  proof (cases "(case parallel opts of None \<Rightarrow> False | Some b \<Rightarrow> b) \<and> 1000 < length data")
    case True
    obtain c' rs where rc: "run_chunks ?f (chunks_of data) c = (c', rs)"
      by (cases "run_chunks ?f (chunks_of data) c")
    with run_chunks_await [of ?f "chunks_of data" c]
    have "(case Promise_all rs of Inl e \<Rightarrow> Inl e | Inr rs \<Rightarrow> Inr (concat rs))
          = snd (filter_items ?f data c)"
      by (simp add: concat_chunks_of)
    with True rc show ?thesis
      by (simp add: searchData_def Let_def await_def)
  next
    case False
    obtain c' r where "filter_items ?f data c = (c', r)"
      by (cases "filter_items ?f data c")
    with False show ?thesis
      by (cases r) (auto simp add: searchData_def Let_def await_def)
  qed
qed

lemma filter_items_sound:
  "filter_items f xs c = (c', Inr ys) \<Longrightarrow> x \<in> set ys \<Longrightarrow> \<exists>c0 c1. f x c0 = (c1, Inr True)"
proof (induction xs arbitrary: c c' ys)
  case Nil
  then show ?case by simp
next
  case (Cons y xs)
  then show ?case
    by (auto split: prod.splits sum.splits if_splits) blast+
qed

lemma filter_items_subseq:
  "filter_items f xs c = (c', Inr ys) \<Longrightarrow> subseq ys xs"
  by (induction xs arbitrary: c c' ys) (auto split: prod.splits sum.splits if_splits)

lemma searchData_parallel_Promise:
  "1000 < length data \<Longrightarrow> \<exists>p. snd (searchData h data t (opts\<lparr>parallel := Some True\<rparr>) c) = Promise p"
  by (simp add: searchData_def Let_def split: prod.splits)

subsection \<open>C3: the parallel mode gives the serial result\<close>

text \<open>
  Claim C3. For a collection of more than 1000 elements and any term and options, the
  awaited result of \<open>searchData\<close> with \<open>parallel: true\<close> is the awaited result of the same
  call with \<open>parallel: false\<close>, the same array or the same exception. The parallel call
  returns a promise; the collection is cut into at most four contiguous chunks whose
  concatenation is the collection; and the result keeps the order of the input: it is
  the input with elements left out.
\<close>

theorem parallel_equals_serial:
  assumes "1000 < length data"
  shows "await (snd (searchData h data t (opts\<lparr>parallel := Some True\<rparr>) c))
           = await (snd (searchData h data t (opts\<lparr>parallel := Some False\<rparr>) c))
       \<and> (\<exists>p. snd (searchData h data t (opts\<lparr>parallel := Some True\<rparr>) c) = Promise p)
       \<and> length (chunks_of data) \<le> 4
       \<and> concat (chunks_of data) = data
       \<and> (\<forall>res. await (snd (searchData h data t (opts\<lparr>parallel := Some True\<rparr>) c)) = Inr res
             \<longrightarrow> subseq res data)"
proof -
  have eq: "await (snd (searchData h data t (opts\<lparr>parallel := Some True\<rparr>) c))
           = await (snd (searchData h data t (opts\<lparr>parallel := Some False\<rparr>) c))"
    by (simp add: await_searchData)
  have sub: "subseq res data"
    if "await (snd (searchData h data t (opts\<lparr>parallel := Some True\<rparr>) c)) = Inr res" for res
  proof -
    from that obtain c' where "filter_items
          (\<lambda>item. matchItem h item t (keys opts)
             (case customMatch opts of None \<Rightarrow> defaultMatcher h | Some m \<Rightarrow> m)
             (case maxDepth opts of None \<Rightarrow> DEFAULT_MAX_DEPTH | Some d \<Rightarrow> d)
             (case enablePathCache opts of None \<Rightarrow> True | Some b \<Rightarrow> b))
          data c = (c', Inr res)"
      by (simp add: await_searchData) (metis prod.collapse)
    then show ?thesis by (rule filter_items_subseq)
  qed
  from eq searchData_parallel_Promise [OF assms] length_chunks_of concat_chunks_of sub
  show ?thesis by blast
qed

text \<open>The theorem at a collection of 1001 strings.\<close>

theorem parallel_equals_serial_witness:
  "await (snd (searchData [] (replicate 1001 (Str ''a'')) (Str ''a'')
                 (no_options\<lparr>parallel := Some True\<rparr>) pathCache_init))
   = await (snd (searchData [] (replicate 1001 (Str ''a'')) (Str ''a'')
                 (no_options\<lparr>parallel := Some False\<rparr>) pathCache_init))"
  by (rule conjunct1 [OF parallel_equals_serial]) simp

subsection \<open>C10: an empty list of keys\<close>

lemma matchItem_no_keys:
  "matchItem h item t (Some []) m d e = matchItem h item t None m d e"
  by (rule ext) (simp add: matchItem_def)

text \<open>
  Claim C10. With \<open>keys: []\<close> the search does what it does without \<open>keys\<close>: the calls
  return the same result and leave the same cache, and each item that is an object is
  matched on the leaves of its depth-bounded flattening, not on an empty list of paths.
\<close>

theorem empty_keys_same_as_no_keys:
  "searchData h data t (opts\<lparr>keys := Some []\<rparr>) c = searchData h data t (opts\<lparr>keys := None\<rparr>) c
   \<and> matchItem h item t (Some []) m d e c = matchItem h item t None m d e c
   \<and> matchItem h item t (Some []) m d e c =
       (c, if isFlattenable item then some_m (\<lambda>v. m v t) (flattenObject h item d) else m item t)"
  by (simp add: searchData_def matchItem_no_keys) (simp add: matchItem_def)

subsection \<open>C9: an object without properties\<close>

text \<open>
  Claim C9. In a search without keys (absent or empty), an item that is an object with no
  own enumerable properties (or an empty array) matches under no matcher, term and depth:
  matching it returns \<open>false\<close>, and no result of \<open>searchData\<close> contains it, whatever the
  custom matcher in the options.
\<close>

theorem empty_object_never_matches:
  assumes "Object_values h a = []" and "keys opts = None \<or> keys opts = Some []"
  shows "matchItem h (Ref a) t (keys opts) m d e c = (c, Inr False)
       \<and> (\<forall>res. await (snd (searchData h data t opts c)) = Inr res \<longrightarrow> Ref a \<notin> set res)"
proof -
  have item: "matchItem h (Ref a) t (keys opts) m' d' e' c' = (c', Inr False)" for m' d' e' c'
    using assms by (auto simp add: matchItem_def isFlattenable_def flattenObject_def)
  have "Ref a \<notin> set res" if res: "await (snd (searchData h data t opts c)) = Inr res" for res
  proof
    assume mem: "Ref a \<in> set res"
    let ?f = "\<lambda>item. matchItem h item t (keys opts)
             (case customMatch opts of None \<Rightarrow> defaultMatcher h | Some m \<Rightarrow> m)
             (case maxDepth opts of None \<Rightarrow> DEFAULT_MAX_DEPTH | Some d \<Rightarrow> d)
             (case enablePathCache opts of None \<Rightarrow> True | Some b \<Rightarrow> b)"
    from res obtain c' where "filter_items ?f data c = (c', Inr res)"
      by (simp add: await_searchData) (metis prod.collapse)
    from filter_items_sound [OF this mem] item show False by simp
  qed
  with item show ?thesis by blast
qed

text \<open>The theorem at \<open>{}\<close> and a matcher that accepts everything.\<close>

theorem empty_object_never_matches_witness:
  "matchItem [Object []] (Ref 0) (Str ''x'') None (\<lambda>v t. Inr True) 10 True pathCache_init
     = (pathCache_init, Inr False)"
  using empty_object_never_matches [of "[Object []]" 0 no_options "Str ''x''" "\<lambda>v t. Inr True" 10 True pathCache_init]
  by (simp add: Object_values_def cell_at_def no_options_def)

subsection \<open>C2: a path with an array-expansion marker\<close>

text \<open>
  Claim C2 says that \<open>orders[].item\<close> resolves to \<open>["a", "b"]\<close> on
  \<open>{orders: [{item: "a"}, {item: "b"}]}\<close>. The code returns the empty list: the segment
  \<open>orders[]\<close> moves to the array, and the plain segment \<open>item\<close> is then read as a property
  of the array itself, which is \<open>undefined\<close>. The marker only expands an array when it
  stands on the segment read from the elements: \<open>orders[].item[]\<close> gives the two values.
\<close>

theorem getNestedValue_orders_item:
  "getNestedValue orders_heap (Ref 0) ''orders[].item'' 10 = []
   \<and> getNestedValue_loop orders_heap (Val (Ref 0)) [''orders[]''] = Inr (Some (Val (Ref 1)))
   \<and> cur_get orders_heap (Val (Ref 1)) ''item'' = Inr Undefined
   \<and> getNestedValue orders_heap (Ref 0) ''orders[].item[]'' 10 = [Str ''a'', Str ''b'']"
  by code_simp

subsection \<open>C1: the path cache changes the values of a path\<close>

text \<open>
  Claim C1 says that the values of a path, and so the result of a search, do not depend
  on the path cache. In the code they do. The first item matched on a path is resolved by
  \<open>getNestedValue\<close>, every later one by \<open>getValueByPath\<close>, which reads the segment
  \<open>tags[]\<close> of an object as the property named \<open>tags[]\<close>. Searching the two items
  \<open>{tags: ["x"]}\<close> for \<open>x\<close> under the key \<open>tags[]\<close> returns only the first item with the
  cache (the default) and both without it; a second search with the same keys, on the
  cache the first one left, returns nothing.
\<close>

theorem cache_changes_search_result:
  "snd (searchData tags_heap [Ref 0, Ref 2] (Str ''x'')
          (no_options\<lparr>keys := Some [''tags[]'']\<rparr>) pathCache_init) = Returned [Ref 0]
   \<and> snd (searchData tags_heap [Ref 0, Ref 2] (Str ''x'')
          (no_options\<lparr>keys := Some [''tags[]''], enablePathCache := Some False\<rparr>) pathCache_init)
       = Returned [Ref 0, Ref 2]
   \<and> snd (searchData tags_heap [Ref 0, Ref 2] (Str ''x'')
          (no_options\<lparr>keys := Some [''tags[]'']\<rparr>)
          (fst (searchData tags_heap [Ref 0, Ref 2] (Str ''x'')
                  (no_options\<lparr>keys := Some [''tags[]'']\<rparr>) pathCache_init))) = Returned []
   \<and> snd (path_values tags_heap (Ref 2) ''tags[]'' 10 True
             (pathCache_init(''tags[]'' \<mapsto> [''tags[]'']))) = [Undefined]
   \<and> snd (path_values tags_heap (Ref 2) ''tags[]'' 10 False
             (pathCache_init(''tags[]'' \<mapsto> [''tags[]'']))) = [Str ''x'']"
  by code_simp

subsection \<open>C7: a failed traversal on a cached path\<close>

text \<open>
  Claim C7 says that a path whose traversal fails contributes no value. \<open>getNestedValue\<close>
  does that: on \<open>{a: null}\<close> the path \<open>a.b\<close> reads a property of \<open>null\<close>, the TypeError is
  caught and the result is empty. \<open>getValueByPath\<close> catches it too but returns
  \<open>undefined\<close>, and \<open>matchItem\<close> hands that value to the matcher: once the path is in the
  cache its value list is \<open>[undefined]\<close>. Searching two items \<open>{a: null}\<close> for
  \<open>undefined\<close> under the key \<open>a.b\<close> returns the second item.
\<close>

theorem failed_path_yields_undefined:
  "getNestedValue null_heap (Ref 1) ''a.b'' 10 = []
   \<and> getValueByPath_loop null_heap (Ref 1) [''a'', ''b''] = Inl TypeError
   \<and> getValueByPath null_heap (Ref 1) ''a.b'' = Val Undefined
   \<and> snd (path_values null_heap (Ref 1) ''a.b'' 10 True
             (pathCache_init(''a.b'' \<mapsto> [''a.b'']))) = [Undefined]
   \<and> snd (searchData null_heap [Ref 0, Ref 1] (Str ''undefined'')
          (no_options\<lparr>keys := Some [''a.b'']\<rparr>) pathCache_init) = Returned [Ref 1]
   \<and> snd (searchData null_heap [Ref 0, Ref 1] (Str ''undefined'')
          (no_options\<lparr>keys := Some [''a.b''], enablePathCache := Some False\<rparr>) pathCache_init)
       = Returned []"
  by code_simp

subsection \<open>C8: the entries of the path cache\<close>

lemma cache_step_refl: "cache_step c c"
  by (simp add: cache_step_def)

lemma cache_step_trans: "cache_step a b \<Longrightarrow> cache_step b c \<Longrightarrow> cache_step a c"
  by (auto simp add: cache_step_def intro: map_le_trans)

lemma cache_step_path_values:
  "cache_step c (fst (path_values h item path d e c))"
  by (auto simp add: path_values_def cache_step_def cache_ok_def map_le_def split: option.splits)

lemma cache_step_match_keys:
  "cache_step c (fst (match_keys h item t m d e c paths))"
proof (induction paths arbitrary: c)
  case Nil
  show ?case by (simp add: cache_step_refl)
next
  case (Cons path paths)
  obtain c' vs where pv: "path_values h item path d e c = (c', vs)"
    by (cases "path_values h item path d e c")
  with cache_step_path_values [of c h item path d e] have 1: "cache_step c c'" by simp
  from Cons [of c'] have 2: "cache_step c' (fst (match_keys h item t m d e c' paths))" .
  from pv 1 cache_step_trans [OF 1 2] show ?case
    by (simp split: sum.splits)
qed

lemma cache_step_matchItem:
  "cache_step c (fst (matchItem h item t ks m d e c))"
  by (simp add: matchItem_def cache_step_refl cache_step_match_keys split: option.splits)

lemma cache_step_filter_items:
  assumes "\<And>x c. cache_step c (fst (f x c))"
  shows "cache_step c (fst (filter_items f xs c))"
proof (induction xs arbitrary: c)
  case Nil
  show ?case by (simp add: cache_step_refl)
next
  case (Cons x xs)
  obtain c' r where fx: "f x c = (c', r)" by (cases "f x c")
  with assms [of c x] have 1: "cache_step c c'" by simp
  from Cons [of c'] have 2: "cache_step c' (fst (filter_items f xs c'))" .
  from fx 1 cache_step_trans [OF 1 2] show ?case
    by (auto split: sum.splits prod.splits)
qed

lemma cache_step_run_chunks:
  assumes "\<And>x c. cache_step c (fst (f x c))"
  shows "cache_step c (fst (run_chunks f chs c))"
proof (induction chs arbitrary: c)
  case Nil
  show ?case by (simp add: cache_step_refl)
next
  case (Cons ch chs)
  have 1: "cache_step c (fst (filter_items f ch c))"
    using assms by (rule cache_step_filter_items)
  from Cons [of "fst (filter_items f ch c)"]
  have 2: "cache_step (fst (filter_items f ch c)) (fst (run_chunks f chs (fst (filter_items f ch c))))" .
  from cache_step_trans [OF 1 2] show ?case
    by (auto split: prod.splits)
qed

lemma cache_step_searchData:
  "cache_step c (fst (searchData h data t opts c))"
proof -
  let ?f = "\<lambda>item. matchItem h item t (keys opts)
             (case customMatch opts of None \<Rightarrow> defaultMatcher h | Some m \<Rightarrow> m)
             (case maxDepth opts of None \<Rightarrow> DEFAULT_MAX_DEPTH | Some d \<Rightarrow> d)
             (case enablePathCache opts of None \<Rightarrow> True | Some b \<Rightarrow> b)"
  have f: "\<And>x c. cache_step c (fst (?f x c))" by (rule cache_step_matchItem)
  have 1: "cache_step c (fst (run_chunks ?f (chunks_of data) c))"
    using f by (rule cache_step_run_chunks)
  have 2: "cache_step c (fst (filter_items ?f data c))"
    using f by (rule cache_step_filter_items)
  from 1 2 show ?thesis
    by (auto simp add: searchData_def Let_def split: prod.splits sum.splits)
qed

lemma cache_ok_run_calls: "cache_ok c \<Longrightarrow> cache_ok (run_calls calls c)"
proof (induction calls arbitrary: c)
  case Nil
  then show ?case by simp
next
  case (Cons call calls)
  obtain h data t opts where call: "call = (h, data, t, opts)" by (cases call)
  from cache_step_searchData [of c h data t opts] Cons.prems
  have "cache_ok (fst (searchData h data t opts c))" by (simp add: cache_step_def)
  from Cons.IH [OF this] call show ?case by simp
qed

lemma split_dot_no_dot: "s \<in> set (split_dot p) \<Longrightarrow> CHR ''.'' \<notin> set s"
  by (induction p arbitrary: s) (auto split: if_splits list.splits)

lemma parsePath_no_dot: "s \<in> set (parsePath p) \<Longrightarrow> CHR ''.'' \<notin> set s"
proof -
  assume "s \<in> set (parsePath p)"
  then obtain s' where s': "s' \<in> set (split_dot p)" and s: "s = trim s'"
    by (auto simp add: parsePath_def)
  have "set (trim s') \<subseteq> set s'"
    by (auto simp add: trim_def dest!: set_dropWhileD)
  with split_dot_no_dot [OF s'] s show ?thesis by auto
qed

text \<open>
  Claim C8. After any sequence of searches from the empty cache of a freshly loaded
  module, every entry of the path cache maps a path \<open>p\<close> to \<open>[p]\<close>. A search keeps every
  entry it finds, unchanged, and keeps that property. So a hit on \<open>p\<close> supplies \<open>[p]\<close>, and
  for a path with a dot this is neither what \<open>parsePath\<close> nor what \<open>split('.')\<close> gives.
\<close>

theorem pathCache_invariant:
  "cache_ok (run_calls calls pathCache_init)
   \<and> c \<subseteq>\<^sub>m fst (searchData h data t opts c)
   \<and> (cache_ok c \<longrightarrow> cache_ok (fst (searchData h data t opts c)))
   \<and> (cache_ok c \<and> c p = Some cached \<longrightarrow>
        cached = [p] \<and> (CHR ''.'' \<in> set p \<longrightarrow> cached \<noteq> parsePath p \<and> cached \<noteq> split_dot p))"
proof -
  have init: "cache_ok pathCache_init" by (simp add: cache_ok_def pathCache_init_def)
  have 1: "cache_ok (run_calls calls pathCache_init)" using init by (rule cache_ok_run_calls)
  have 2: "c \<subseteq>\<^sub>m fst (searchData h data t opts c)"
    and 3: "cache_ok c \<longrightarrow> cache_ok (fst (searchData h data t opts c))"
    using cache_step_searchData [of c h data t opts] by (simp_all add: cache_step_def)
  have 4: "cached = [p] \<and> (CHR ''.'' \<in> set p \<longrightarrow> cached \<noteq> parsePath p \<and> cached \<noteq> split_dot p)"
    if "cache_ok c" "c p = Some cached"
  proof -
    from that have "cached = [p]" by (simp add: cache_ok_def)
    moreover have "[p] \<noteq> parsePath p" if dot: "CHR ''.'' \<in> set p"
    proof
      assume "[p] = parsePath p"
      then have "p \<in> set (parsePath p)" by (metis list.set_intros(1))
      from parsePath_no_dot [OF this] dot show False by simp
    qed
    moreover have "[p] \<noteq> split_dot p" if dot: "CHR ''.'' \<in> set p"
    proof
      assume "[p] = split_dot p"
      then have "p \<in> set (split_dot p)" by (metis list.set_intros(1))
      from split_dot_no_dot [OF this] dot show False by simp
    qed
    ultimately show ?thesis by simp
  qed
  from 1 2 3 4 show ?thesis by blast
qed

text \<open>The theorem at the cache that a search under the key \<open>a.b\<close> leaves.\<close>

theorem pathCache_invariant_witness:
  "cache_ok (run_calls [(null_heap, [Ref 0, Ref 1], Str ''undefined'',
                         no_options\<lparr>keys := Some [''a.b'']\<rparr>)] pathCache_init)
   \<and> run_calls [(null_heap, [Ref 0, Ref 1], Str ''undefined'',
                  no_options\<lparr>keys := Some [''a.b'']\<rparr>)] pathCache_init ''a.b'' = Some [''a.b'']
   \<and> CHR ''.'' \<in> set ''a.b''
   \<and> [''a.b''] \<noteq> parsePath ''a.b''
   \<and> parsePath ''a.b'' = [''a'', ''b'']"
proof -
  let ?calls = "[(null_heap, [Ref 0, Ref 1], Str ''undefined'',
                  no_options\<lparr>keys := Some [''a.b'']\<rparr>)]"
  have hit: "run_calls ?calls pathCache_init ''a.b'' = Some [''a.b'']"
    by code_simp
  have parsed: "parsePath ''a.b'' = [''a'', ''b'']"
    by code_simp
  from pathCache_invariant [of ?calls "run_calls ?calls pathCache_init" null_heap "[]" Null
      no_options "''a.b''" "[''a.b'']"] hit parsed
  show ?thesis by simp
qed

subsection \<open>C6: a depth budget of 1\<close>

lemma some_m_all_False:
  "(\<And>x. x \<in> set xs \<Longrightarrow> p x = Inr False) \<Longrightarrow> some_m p xs = Inr False"
  by (induction xs) auto

lemma flatten_0: "flatten h v 0 = [v]"
  by (simp add: flatten.simps)

lemma flatten_not_flattenable: "\<not> isFlattenable v \<Longrightarrow> flatten h v d = [v]"
  by (simp add: flatten.simps)

lemma flatten_1: "flatten h v 1 = (case v of Ref b \<Rightarrow> Object_values h b | _ \<Rightarrow> [v])"
proof (cases v)
  case (Ref b)
  have "concat (map (\<lambda>w. [w]) xs) = xs" for xs :: "jsval list"
    by (induction xs) auto
  then have "flatten h (Ref b) 1 = Object_values h b"
    by (simp add: flatten.simps [of h "Ref b" 1] isFlattenable_def flatten_0)
  with Ref show ?thesis by simp
qed (simp_all add: flatten_not_flattenable isFlattenable_def)

text \<open>
  Claim C6. Flattening with budget 0 keeps a value as one leaf, whatever it holds. So
  with \<open>maxDepth: 1\<close> the leaves of an item are the values of its object-valued
  properties and its other properties themselves; an object two levels down stays a
  leaf. In a search without keys, an item none of whose leaves the matcher accepts is in
  no result, also when a value nested deeper would match.
\<close>

theorem maxDepth_1_keeps_nested_object_as_leaf:
  "flatten h v 0 = [v]
   \<and> flattenObject h (Ref a) 1 =
       concat (map (\<lambda>v. case v of Ref b \<Rightarrow> Object_values h b | _ \<Rightarrow> [v]) (Object_values h a))
   \<and> ((keys opts = None \<or> keys opts = Some []) \<and> maxDepth opts = Some 1
        \<and> (\<forall>leaf \<in> set (flattenObject h (Ref a) 1).
              (case customMatch opts of None \<Rightarrow> defaultMatcher h | Some m \<Rightarrow> m) leaf t = Inr False)
      \<longrightarrow> (\<forall>res. await (snd (searchData h data t opts c)) = Inr res \<longrightarrow> Ref a \<notin> set res))"
proof -
  have 1: "flatten h v 0 = [v]" by (rule flatten_0)
  have 2: "flattenObject h (Ref a) 1 =
       concat (map (\<lambda>v. case v of Ref b \<Rightarrow> Object_values h b | _ \<Rightarrow> [v]) (Object_values h a))"
    by (simp add: flattenObject_def flatten_1)
  have 3: "Ref a \<notin> set res"
    if ks: "keys opts = None \<or> keys opts = Some []" and md: "maxDepth opts = Some 1"
      and leaves: "\<forall>leaf \<in> set (flattenObject h (Ref a) 1).
              (case customMatch opts of None \<Rightarrow> defaultMatcher h | Some m \<Rightarrow> m) leaf t = Inr False"
      and res: "await (snd (searchData h data t opts c)) = Inr res" for res
  proof
    assume mem: "Ref a \<in> set res"
    let ?m = "case customMatch opts of None \<Rightarrow> defaultMatcher h | Some m \<Rightarrow> m"
    let ?f = "\<lambda>item. matchItem h item t (keys opts) ?m
             (case maxDepth opts of None \<Rightarrow> DEFAULT_MAX_DEPTH | Some d \<Rightarrow> d)
             (case enablePathCache opts of None \<Rightarrow> True | Some b \<Rightarrow> b)"
    from leaves have "some_m (\<lambda>v. ?m v t) (flattenObject h (Ref a) 1) = Inr False"
      by (intro some_m_all_False) simp
    with ks md have item: "?f (Ref a) c0 = (c0, Inr False)" for c0
      by (auto simp add: matchItem_def isFlattenable_def)
    from res obtain c' where "filter_items ?f data c = (c', Inr res)"
      by (simp add: await_searchData) (metis prod.collapse)
    from filter_items_sound [OF this mem] item show False by simp
  qed
  from 1 2 3 show ?thesis by blast
qed

text \<open>
  The theorem at \<open>{a: {b: {c: "needle"}}}\<close> and the term \<open>needle\<close>: the only leaf is the
  object \<open>{c: "needle"}\<close>, whose text is \<open>[object Object]\<close>; the search with
  \<open>maxDepth: 1\<close> is empty and the search with \<open>maxDepth: 2\<close> finds the item.
\<close>

theorem maxDepth_1_keeps_nested_object_as_leaf_witness:
  "flattenObject nested_heap (Ref 0) 1 = [Ref 2]
   \<and> defaultMatcher nested_heap (Ref 2) (Str ''needle'') = Inr False
   \<and> await (snd (searchData nested_heap [Ref 0] (Str ''needle'')
                   (no_options\<lparr>maxDepth := Some 1\<rparr>) pathCache_init)) = Inr []
   \<and> await (snd (searchData nested_heap [Ref 0] (Str ''needle'')
                   (no_options\<lparr>maxDepth := Some 2\<rparr>) pathCache_init)) = Inr [Ref 0]"
proof -
  have fl: "flattenObject nested_heap (Ref 0) 1 = [Ref 2]" by code_simp
  have dm: "defaultMatcher nested_heap (Ref 2) (Str ''needle'') = Inr False" by code_simp
  have r1: "await (snd (searchData nested_heap [Ref 0] (Str ''needle'')
                   (no_options\<lparr>maxDepth := Some 1\<rparr>) pathCache_init)) = Inr []" by code_simp
  have r2: "await (snd (searchData nested_heap [Ref 0] (Str ''needle'')
                   (no_options\<lparr>maxDepth := Some 2\<rparr>) pathCache_init)) = Inr [Ref 0]" by code_simp
  from maxDepth_1_keeps_nested_object_as_leaf [of nested_heap Null 0 "no_options\<lparr>maxDepth := Some 1\<rparr>"
      "Str ''needle''" "[Ref 0]" pathCache_init] fl dm r1 r2
  show ?thesis by (simp add: no_options_def)
qed

subsection \<open>C4: a self-referential object\<close>














subsection \<open>C5: the regular-expression matcher\<close>

text \<open>
  Claim C5. For every engine, store, flags, value and pattern, the matcher made by
  \<open>createRegExpMatcher\<close> returns a boolean and never throws. When the engine rejects the
  pattern with the flags (default \<open>i\<close>) it returns \<open>false\<close>; when the engine accepts it, the
  matcher returns what the expression's test gives on \<open>String(value)\<close>, and \<open>false\<close> when
  \<open>String(value)\<close> throws. So with an engine that rejects \<open>[\<close>, the matcher with default
  flags gives \<open>false\<close> on \<open>test\<close> and \<open>[\<close>, and with an engine whose expression for
  \<open>\d+\<close> under \<open>i\<close> accepts \<open>Hello123\<close>, the matcher gives \<open>true\<close> there.
\<close>

theorem createRegExpMatcher_never_throws:
  "(\<exists>b. createRegExpMatcher RegExp h flags v pattern = Inr b)
   \<and> (RegExp pattern (case flags of None \<Rightarrow> ''i'' | Some f \<Rightarrow> f) = None \<longrightarrow>
        createRegExpMatcher RegExp h flags v pattern = Inr False)
   \<and> (RegExp pattern (case flags of None \<Rightarrow> ''i'' | Some f \<Rightarrow> f) = Some test \<and> String h v = Inr s \<longrightarrow>
        createRegExpMatcher RegExp h flags v pattern = Inr (test s))
   \<and> (String h v = Inl err \<longrightarrow> createRegExpMatcher RegExp h flags v pattern = Inr False)
   \<and> (RegExp ''['' ''i'' = None \<longrightarrow>
        createRegExpMatcher RegExp h None (Str ''test'') ''['' = Inr False)
   \<and> (RegExp (CHR 0x5C # ''d+'') ''i'' = Some test' \<and> test' ''Hello123'' \<longrightarrow>
        createRegExpMatcher RegExp h (Some ''i'') (Str ''Hello123'') (CHR 0x5C # ''d+'') = Inr True)"
  by (auto simp add: createRegExpMatcher_def createRegExpMatcher_try_def String_def
      split: option.splits sum.splits)

text \<open>
  The theorem at an engine that rejects every pattern with an opening bracket and reads
  every other pattern as a literal text to find.
\<close>

theorem createRegExpMatcher_never_throws_witness:
  "createRegExpMatcher (\<lambda>p f. if CHR ''['' \<in> set p then None else Some (\<lambda>s. str_includes s p))
     [] None (Str ''test'') ''['' = Inr False
   \<and> createRegExpMatcher (\<lambda>p f. if CHR ''['' \<in> set p then None else Some (\<lambda>s. str_includes s p))
     [] (Some ''i'') (Str ''Hello123'') ''123'' = Inr True"
proof -
  let ?re = "\<lambda>p f. if CHR ''['' \<in> set p then None else Some (\<lambda>s. str_includes s p)"
  from createRegExpMatcher_never_throws [of ?re "[]" None "Str ''test''" "''[''" "\<lambda>s. True" "''test''" TypeError "\<lambda>s. True"]
  have 1: "createRegExpMatcher ?re [] None (Str ''test'') ''['' = Inr False" by simp
  from createRegExpMatcher_never_throws [of ?re "[]" "Some ''i''" "Str ''Hello123''" "''123''" "\<lambda>s. str_includes s ''123''" "''Hello123''" TypeError "\<lambda>s. True"]
  have 2: "createRegExpMatcher ?re [] (Some ''i'') (Str ''Hello123'') ''123'' = Inr True"
    by (simp add: String_def)
  from 1 2 show ?thesis by simp
qed

end
